theory Spec2Isabelle
  imports Main
begin

section \<open>Python strings\<close>

text \<open>
  A Python \<open>str\<close> is modelled as a \<open>string\<close>: a list of characters with code points
  0 to 255.  The string methods used by \<open>backend/main.py\<close> are written out below with the
  meaning Python gives them on that range.
\<close>

definition isspace :: "char \<Rightarrow> bool" where
  \<comment> \<open>The characters \<open>str.strip()\<close> removes: tab to carriage return, the separators
      0x1C to 0x1F, space, NEL (0x85) and the no-break space (0xA0).\<close>
  "isspace c =
     (let n = (of_char c :: nat)
      in (9 \<le> n \<and> n \<le> 13) \<or> (28 \<le> n \<and> n \<le> 32) \<or> n = 133 \<or> n = 160)"

definition strip :: "string \<Rightarrow> string" where
  "strip s = rev (dropWhile isspace (rev (dropWhile isspace s)))"

definition startswith :: "string \<Rightarrow> string \<Rightarrow> bool" where
  "startswith s p = (take (length p) s = p)"

definition endswith :: "string \<Rightarrow> string \<Rightarrow> bool" where
  "endswith s p = (length p \<le> length s \<and> drop (length s - length p) s = p)"

definition slice :: "string \<Rightarrow> int \<Rightarrow> int \<Rightarrow> string" where
  \<comment> \<open>\<open>s[i:j]\<close>: a negative index counts from the end, and both ends are clipped.\<close>
  "slice s i j =
     (let n = int (length s);
          a = (if i < 0 then max 0 (n + i) else min i n);
          b = (if j < 0 then max 0 (n + j) else min j n)
      in take (nat (b - a)) (drop (nat a) s))"

definition lower_char :: "char \<Rightarrow> char" where
  "lower_char c =
     (let n = (of_char c :: nat)
      in if (65 \<le> n \<and> n \<le> 90) \<or> (192 \<le> n \<and> n \<le> 222 \<and> n \<noteq> 215)
         then char_of (n + 32) else c)"

definition lower :: "string \<Rightarrow> string" where
  "lower s = map lower_char s"

definition upper_char :: "char \<Rightarrow> char" where
  \<comment> \<open>Python maps 0xB5, 0xDF and 0xFF to text outside this range (and never to one of
      the letters of \<open>DAY_MAP\<close>); they are left as they are.\<close>
  "upper_char c =
     (let n = (of_char c :: nat)
      in if (97 \<le> n \<and> n \<le> 122) \<or> (224 \<le> n \<and> n \<le> 254 \<and> n \<noteq> 247)
         then char_of (n - 32) else c)"

definition upper :: "string \<Rightarrow> string" where
  "upper s = map upper_char s"

definition replace_backticks :: "string \<Rightarrow> string" where
  \<comment> \<open>\<open>s.replace("`", "")\<close>\<close>
  "replace_backticks s = filter (\<lambda>c. c \<noteq> CHR 0x60) s"

section \<open>The response sanitizer\<close>

definition fence :: string where
  "fence = [CHR 0x60, CHR 0x60, CHR 0x60]"

definition strip_json_tag :: "string \<Rightarrow> string" where
  \<comment> \<open>Lines 171 to 177: the leading language identifier and an optional colon.\<close>
  "strip_json_tag cleaned =
     (let lower_cleaned = lower cleaned
      in if startswith lower_cleaned ''json''
         then (let cleaned = strip (drop (length ''json'') cleaned)
               in if startswith cleaned '':'' then strip (drop 1 cleaned) else cleaned)
         else cleaned)"

definition clean_response :: "string \<Rightarrow> string" where
  "clean_response response_str =
     (let cleaned = strip response_str;
          cleaned = (if startswith cleaned fence \<and> endswith cleaned fence
                     then strip (slice cleaned 3 (- 3)) else cleaned);
          cleaned = strip_json_tag cleaned
      in replace_backticks cleaned)"

section \<open>Decoded values and exceptions\<close>

text \<open>
  What \<open>demjson3.decode\<close> hands back: Python objects built from JSON text.  An object is
  an association list of its members, looked up with \<open>map_of\<close>.  The code never reads
  the value of a number.
\<close>

datatype pyval =
    PNone
  | PBool bool
  | PNum int
  | PStr string
  | PList "pyval list"
  | PDict "(string \<times> pyval) list"

datatype pyexc =
    KeyError string
  | TypeError
  | AttributeError
  | ValueError
  | OverflowError
  | JSONDecodeError

type_synonym 'a result = "pyexc + 'a"

definition bind :: "'a result \<Rightarrow> ('a \<Rightarrow> 'b result) \<Rightarrow> 'b result" where
  "bind r f = (case r of Inl e \<Rightarrow> Inl e | Inr v \<Rightarrow> f v)"

fun getitem :: "pyval \<Rightarrow> string \<Rightarrow> pyval result" where
  \<comment> \<open>\<open>obj[key]\<close> with a string key\<close>
  "getitem (PDict kvs) k = (case map_of kvs k of None \<Rightarrow> Inl (KeyError k) | Some v \<Rightarrow> Inr v)"
| "getitem _ k = Inl TypeError"

fun iter_items :: "pyval \<Rightarrow> pyval list result" where
  \<comment> \<open>The items \<open>for day in days\<close> visits: the characters of a string, the elements of
      a list, the keys of an object; anything else is not iterable.\<close>
  "iter_items (PStr s) = Inr (map (\<lambda>c. PStr [c]) s)"
| "iter_items (PList xs) = Inr xs"
| "iter_items (PDict kvs) = Inr (map (\<lambda>kv. PStr (fst kv)) kvs)"
| "iter_items _ = Inl TypeError"

section \<open>The schedule decoder\<close>

text \<open>
  \<open>demjson3\<close> is a third-party parser, so \<open>parse_schedule\<close> takes it as the parameter
  \<open>decode\<close>; \<open>None\<close> stands for the exception it raises on text it cannot parse.
  Every exception inside the \<open>try\<close> block is re-raised as the one \<open>ValueError\<close> of
  line 192, whose cause is kept.
\<close>

datatype parse_error = Failed_to_parse pyexc

fun get_events :: "pyval \<Rightarrow> pyval result" where
  \<comment> \<open>\<open>schedule_dict.get("events", [])\<close>; only an object has \<open>get\<close>.\<close>
  "get_events (PDict kvs) =
     (case map_of kvs ''events'' of None \<Rightarrow> Inr (PList []) | Some v \<Rightarrow> Inr v)"
| "get_events _ = Inl AttributeError"

definition parse_schedule ::
  "(string \<Rightarrow> pyval option) \<Rightarrow> string \<Rightarrow> parse_error + pyval list" where
  "parse_schedule decode formatted_schedule =
     (let cleaned_schedule = clean_response formatted_schedule
      in case decode cleaned_schedule of
           None \<Rightarrow> Inl (Failed_to_parse JSONDecodeError)
         | Some schedule_dict \<Rightarrow>
             (case get_events schedule_dict of
                Inl e \<Rightarrow> Inl (Failed_to_parse e)
              | Inr (PList events) \<Rightarrow> Inr events
              | Inr _ \<Rightarrow> Inl (Failed_to_parse ValueError)))"

section \<open>Dates and times\<close>

text \<open>
  The parts of Python's \<open>datetime\<close> module the code calls.  A \<open>date\<close> holds year, month
  and day; \<open>toordinal\<close> and \<open>weekday\<close> are the module's own formulas (day 1 is
  0001-01-01, Monday is 0).
\<close>

record date =
  year :: int
  month :: int
  day :: int

record time =
  hour :: int
  minute :: int
  second :: int

record datetime =
  dt_date :: date
  dt_time :: time

definition is_leap :: "int \<Rightarrow> bool" where
  "is_leap y = (y mod 4 = 0 \<and> (y mod 100 \<noteq> 0 \<or> y mod 400 = 0))"

definition days_in_month :: "int \<Rightarrow> int \<Rightarrow> int" where
  "days_in_month y m =
     (if m = 2 then (if is_leap y then 29 else 28)
      else if m = 4 \<or> m = 6 \<or> m = 9 \<or> m = 11 then 30 else 31)"

definition days_before_year :: "int \<Rightarrow> int" where
  "days_before_year y = (let z = y - 1 in z * 365 + z div 4 - z div 100 + z div 400)"

definition days_before_month :: "int \<Rightarrow> int \<Rightarrow> int" where
  "days_before_month y m =
     [0, 31, 59, 90, 120, 151, 181, 212, 243, 273, 304, 334] ! nat (m - 1)
       + (if m > 2 \<and> is_leap y then 1 else 0)"

definition toordinal :: "date \<Rightarrow> int" where
  "toordinal d = days_before_year (year d) + days_before_month (year d) (month d) + day d"

definition weekday :: "date \<Rightarrow> int" where
  "weekday d = (toordinal d + 6) mod 7"

definition valid_date :: "date \<Rightarrow> bool" where
  "valid_date d =
     (1 \<le> year d \<and> year d \<le> 9999 \<and> 1 \<le> month d \<and> month d \<le> 12 \<and>
      1 \<le> day d \<and> day d \<le> days_in_month (year d) (month d))"

definition valid_time :: "time \<Rightarrow> bool" where
  "valid_time t =
     (0 \<le> hour t \<and> hour t \<le> 23 \<and> 0 \<le> minute t \<and> minute t \<le> 59 \<and>
      0 \<le> second t \<and> second t \<le> 59)"

definition max_ordinal :: int where
  \<comment> \<open>the ordinal of 9999-12-31\<close>
  "max_ordinal = 3652059"

definition next_day :: "date \<Rightarrow> date option" where
  "next_day d =
     (if day d < days_in_month (year d) (month d) then Some (d\<lparr>day := day d + 1\<rparr>)
      else if month d < 12 then Some (d\<lparr>month := month d + 1, day := 1\<rparr>)
      else if year d < 9999 then Some \<lparr>year = year d + 1, month = 1, day = 1\<rparr>
      else None)"

fun add_days :: "date \<Rightarrow> nat \<Rightarrow> date option" where
  \<comment> \<open>\<open>d + timedelta(days=k)\<close> for \<open>k \<ge> 0\<close>: the date \<open>k\<close> days later; \<open>None\<close> is the
      OverflowError Python raises past 9999-12-31.\<close>
  "add_days d 0 = Some d"
| "add_days d (Suc k) = (case next_day d of None \<Rightarrow> None | Some d' \<Rightarrow> add_days d' k)"

definition combine :: "date \<Rightarrow> time \<Rightarrow> datetime" where
  "combine d t = \<lparr>dt_date = d, dt_time = t\<rparr>"

subsection \<open>Parsing with \<open>strptime\<close>\<close>

text \<open>
  \<open>strptime\<close> matches the text against one pattern per directive and then builds the
  value, which fails on a date or time that does not exist.  The patterns, from the
  module: \<open>%Y\<close> four digits; \<open>%m\<close> 01 to 12 or 1 to 9; \<open>%d\<close> 01 to 31, 1 to 9, or a
  space and 1 to 9; \<open>%H\<close> 00 to 23 or one digit; \<open>%M\<close> 00 to 59 or one digit; \<open>%S\<close> 00
  to 61 or one digit.  The literal characters of the format match without regard to
  case, and no text may remain.  As no field contains its closing separator, the text is
  cut at the separators and every piece must match its directive.
\<close>

definition isdigit :: "char \<Rightarrow> bool" where
  "isdigit c = (let n = (of_char c :: nat) in 48 \<le> n \<and> n \<le> 57)"

definition int_of_digits :: "string \<Rightarrow> int" where
  "int_of_digits s = foldl (\<lambda>acc c. 10 * acc + (int (of_char c) - 48)) 0 s"

definition digits_between :: "nat \<Rightarrow> int \<Rightarrow> int \<Rightarrow> string \<Rightarrow> bool" where
  \<comment> \<open>\<open>n\<close> digits whose value lies between \<open>lo\<close> and \<open>hi\<close>\<close>
  "digits_between n lo hi f =
     (length f = n \<and> list_all isdigit f \<and> lo \<le> int_of_digits f \<and> int_of_digits f \<le> hi)"

definition match_Y :: "string \<Rightarrow> int option" where
  "match_Y f = (if digits_between 4 0 9999 f then Some (int_of_digits f) else None)"

definition match_m :: "string \<Rightarrow> int option" where
  "match_m f =
     (if digits_between 2 1 12 f \<or> digits_between 1 1 9 f then Some (int_of_digits f)
      else None)"

definition match_d :: "string \<Rightarrow> int option" where
  "match_d f =
     (if digits_between 2 1 31 f \<or> digits_between 1 1 9 f then Some (int_of_digits f)
      else case f of
             [sp, c] \<Rightarrow> (if sp = CHR '' '' \<and> digits_between 1 1 9 [c]
                         then Some (int_of_digits [c]) else None)
           | _ \<Rightarrow> None)"

definition match_H :: "string \<Rightarrow> int option" where
  "match_H f =
     (if digits_between 2 0 23 f \<or> digits_between 1 0 9 f then Some (int_of_digits f)
      else None)"

definition match_M :: "string \<Rightarrow> int option" where
  "match_M f =
     (if digits_between 2 0 59 f \<or> digits_between 1 0 9 f then Some (int_of_digits f)
      else None)"

definition match_S :: "string \<Rightarrow> int option" where
  "match_S f =
     (if digits_between 2 0 61 f \<or> digits_between 1 0 9 f then Some (int_of_digits f)
      else None)"

definition split_at :: "(char \<Rightarrow> bool) \<Rightarrow> string \<Rightarrow> (string \<times> string) option" where
  \<comment> \<open>cut at the first character that is a separator\<close>
  "split_at sep s =
     (case dropWhile (\<lambda>c. \<not> sep c) s of
        [] \<Rightarrow> None
      | _ # rest \<Rightarrow> Some (takeWhile (\<lambda>c. \<not> sep c) s, rest))"

definition make_date :: "int \<Rightarrow> int \<Rightarrow> int \<Rightarrow> date option" where
  "make_date y m d =
     (let r = \<lparr>year = y, month = m, day = d\<rparr> in if valid_date r then Some r else None)"

definition make_time :: "int \<Rightarrow> int \<Rightarrow> int \<Rightarrow> time option" where
  "make_time h mi s =
     (let r = \<lparr>hour = h, minute = mi, second = s\<rparr> in if valid_time r then Some r else None)"

definition strptime_date :: "string \<Rightarrow> date option" where
  \<comment> \<open>\<open>datetime.strptime(s, "%Y-%m-%d").date()\<close>\<close>
  "strptime_date s =
     Option.bind (split_at (\<lambda>c. c = CHR ''-'') s) (\<lambda>(fY, s1).
     Option.bind (split_at (\<lambda>c. c = CHR ''-'') s1) (\<lambda>(fm, fd).
     Option.bind (match_Y fY) (\<lambda>y.
     Option.bind (match_m fm) (\<lambda>m.
     Option.bind (match_d fd) (\<lambda>d.
     make_date y m d)))))"

definition strptime_datetime :: "string \<Rightarrow> datetime option" where
  \<comment> \<open>\<open>datetime.strptime(s, "%Y-%m-%dT%H:%M:%S")\<close>\<close>
  "strptime_datetime s =
     Option.bind (split_at (\<lambda>c. c = CHR ''-'') s) (\<lambda>(fY, s1).
     Option.bind (split_at (\<lambda>c. c = CHR ''-'') s1) (\<lambda>(fm, s2).
     Option.bind (split_at (\<lambda>c. c = CHR ''T'' \<or> c = CHR ''t'') s2) (\<lambda>(fd, s3).
     Option.bind (split_at (\<lambda>c. c = CHR '':'') s3) (\<lambda>(fH, s4).
     Option.bind (split_at (\<lambda>c. c = CHR '':'') s4) (\<lambda>(fM, fS).
     Option.bind (match_Y fY) (\<lambda>y.
     Option.bind (match_m fm) (\<lambda>m.
     Option.bind (match_d fd) (\<lambda>d.
     Option.bind (match_H fH) (\<lambda>h.
     Option.bind (match_M fM) (\<lambda>mi.
     Option.bind (match_S fS) (\<lambda>sec.
     Option.bind (make_date y m d) (\<lambda>dd.
     Option.bind (make_time h mi sec) (\<lambda>tt.
     Some (combine dd tt))))))))))))))"

definition strptime :: "pyval \<Rightarrow> (string \<Rightarrow> 'a option) \<Rightarrow> 'a result" where
  \<comment> \<open>a first argument that is not a string is a TypeError, text that does not match the
      format a ValueError\<close>
  "strptime v parse =
     (case v of
        PStr s \<Rightarrow> (case parse s of None \<Rightarrow> Inl ValueError | Some r \<Rightarrow> Inr r)
      | _ \<Rightarrow> Inl TypeError)"

fun decimal :: "nat \<Rightarrow> string" where
  "decimal n = (if n < 10 then [char_of (48 + n)] else decimal (n div 10) @ [char_of (48 + n mod 10)])"

declare decimal.simps [simp del]

definition two_digits :: "int \<Rightarrow> string" where
  "two_digits n = (if n < 10 then ''0'' @ decimal (nat n) else decimal (nat n))"

definition strftime :: "date \<Rightarrow> string" where
  \<comment> \<open>\<open>d.strftime("%Y-%m-%d")\<close>; the year is written as the C library writes it, without
      padding (four digits from the year 1000 on).\<close>
  "strftime d = decimal (nat (year d)) @ ''-'' @ two_digits (month d) @ ''-'' @ two_digits (day d)"

section \<open>The calendar generator\<close>

text \<open>
  \<open>Calendar\<close> and \<open>Event\<close> belong to the third-party \<open>ics\<close> package.  An \<open>ics_event\<close>
  records the attributes \<open>generate_ics\<close> assigns to a new \<open>Event\<close>, and \<open>cal_events\<close> the
  events handed to \<open>cal.events.add\<close>, in the order of the calls; every call passes a new
  object.  Of the package's own behaviour the model keeps the one check that decides
  whether an event is added: the setter of \<open>Event.end\<close> refuses an end before the
  begin.  How \<open>str(cal)\<close> writes the events is outside the source.  The log lines are kept beside the events.  The
  Python function names and writes a file and returns its path; that is
  input/output, and the model returns the calendar and the log in its place.
\<close>

definition DAY_MAP :: "string \<Rightarrow> int option" where
  "DAY_MAP = [''M'' \<mapsto> 0, ''T'' \<mapsto> 1, ''W'' \<mapsto> 2, ''R'' \<mapsto> 3, ''F'' \<mapsto> 4]"

record ics_event =
  ev_name :: pyval
  ev_begin :: datetime
  ev_end :: datetime
  ev_location :: pyval
  ev_description :: pyval
  ev_rrule :: "(string \<times> string) list"

datatype log_record =
    Warning_unrecognized_day nat pyval
  | Error_missing_key nat string
  | Error_unexpected nat pyexc

record gen_state =
  cal_events :: "ics_event list"
  log_records :: "log_record list"

record parsed_event =
  title :: pyval
  start_dt :: datetime
  end_dt :: datetime
  location :: pyval
  instructor :: pyval
  end_date :: date

definition read_event :: "pyval \<Rightarrow> (parsed_event \<times> pyval list) result" where
  \<comment> \<open>Lines 200 to 212: the seven fields, the three parsed values, and the items the
      loop over \<open>days\<close> will visit.\<close>
  "read_event event_data =
     bind (getitem event_data ''title'') (\<lambda>title.
     bind (getitem event_data ''start'') (\<lambda>start_str.
     bind (getitem event_data ''end'') (\<lambda>end_str.
     bind (getitem event_data ''days'') (\<lambda>days.
     bind (getitem event_data ''location'') (\<lambda>location.
     bind (getitem event_data ''notes'') (\<lambda>instructor.
     bind (getitem event_data ''end_date'') (\<lambda>end_date_str.
     bind (strptime start_str strptime_datetime) (\<lambda>start_dt.
     bind (strptime end_str strptime_datetime) (\<lambda>end_dt.
     bind (strptime end_date_str strptime_date) (\<lambda>end_date.
     bind (iter_items days) (\<lambda>items.
     Inr (\<lparr>title = title, start_dt = start_dt, end_dt = end_dt, location = location,
           instructor = instructor, end_date = end_date\<rparr>, items))))))))))))"

definition days_ahead :: "int \<Rightarrow> datetime \<Rightarrow> int" where
  \<comment> \<open>line 219\<close>
  "days_ahead weekday_no start = (weekday_no - weekday (dt_date start)) mod 7"

definition first_event_date :: "int \<Rightarrow> datetime \<Rightarrow> date option" where
  \<comment> \<open>line 220\<close>
  "first_event_date weekday_no start = add_days (dt_date start) (nat (days_ahead weekday_no start))"

definition date_less :: "date \<Rightarrow> date \<Rightarrow> bool" where
  "date_less a b =
     (year a < year b \<or> (year a = year b \<and>
        (month a < month b \<or> (month a = month b \<and> day a < day b))))"

definition time_less :: "time \<Rightarrow> time \<Rightarrow> bool" where
  "time_less a b =
     (hour a < hour b \<or> (hour a = hour b \<and>
        (minute a < minute b \<or> (minute a = minute b \<and> second a < second b))))"

definition datetime_less :: "datetime \<Rightarrow> datetime \<Rightarrow> bool" where
  \<comment> \<open>\<open>a < b\<close> on date-times: by date, then by time of day\<close>
  "datetime_less a b =
     (date_less (dt_date a) (dt_date b) \<or>
      (dt_date a = dt_date b \<and> time_less (dt_time a) (dt_time b)))"

definition event_fields :: "parsed_event \<Rightarrow> date \<Rightarrow> ics_event" where
  \<comment> \<open>the values lines 223 to 228 assign\<close>
  "event_fields p d =
     \<lparr>ev_name = title p,
      ev_begin = combine d (dt_time (start_dt p)),
      ev_end = combine d (dt_time (end_dt p)),
      ev_location = location p,
      ev_description = instructor p,
      ev_rrule = [(''freq'', ''WEEKLY''), (''until'', strftime (end_date p))]\<rparr>"

definition new_event :: "parsed_event \<Rightarrow> date \<Rightarrow> ics_event result" where
  \<comment> \<open>Lines 222 to 228.  The assignment of line 225 goes through the setter of
      \<open>Event.end\<close>, which raises \<open>ValueError("End must be after begin")\<close> for a value
      before the begin set on line 224; the other assignments store their value.\<close>
  "new_event p d =
     (let event = event_fields p d
      in if datetime_less (ev_end event) (ev_begin event) then Inl ValueError else Inr event)"

fun days_loop :: "nat \<Rightarrow> parsed_event \<Rightarrow> pyval list \<Rightarrow> gen_state \<Rightarrow> pyexc option \<times> gen_state" where
  \<comment> \<open>The loop of lines 212 to 229.  An exception leaves the loop, and the events added
      before it stay in the calendar.\<close>
  "days_loop idx p [] st = (None, st)"
| "days_loop idx p (PStr s # rest) st =
     (case DAY_MAP (upper s) of
        None \<Rightarrow>
          days_loop idx p rest
            (st\<lparr>log_records := log_records st @ [Warning_unrecognized_day idx (PStr s)]\<rparr>)
      | Some weekday_no \<Rightarrow>
          (case first_event_date weekday_no (start_dt p) of
             None \<Rightarrow> (Some OverflowError, st)
           | Some d \<Rightarrow>
               (case new_event p d of
                  Inl e \<Rightarrow> (Some e, st)
                | Inr event \<Rightarrow>
                    days_loop idx p rest (st\<lparr>cal_events := cal_events st @ [event]\<rparr>))))"
| "days_loop idx p (_ # rest) st = (Some AttributeError, st)"

definition handler :: "nat \<Rightarrow> pyexc \<Rightarrow> gen_state \<Rightarrow> gen_state" where
  \<comment> \<open>the two \<open>except\<close> clauses: both log and go on\<close>
  "handler idx e st =
     (case e of
        KeyError k \<Rightarrow> st\<lparr>log_records := log_records st @ [Error_missing_key idx k]\<rparr>
      | _ \<Rightarrow> st\<lparr>log_records := log_records st @ [Error_unexpected idx e]\<rparr>)"

definition process_event :: "nat \<Rightarrow> pyval \<Rightarrow> gen_state \<Rightarrow> gen_state" where
  \<comment> \<open>one round of the loop over the events: the \<open>try\<close> block and its handlers\<close>
  "process_event idx event_data st =
     (case read_event event_data of
        Inl e \<Rightarrow> handler idx e st
      | Inr (p, items) \<Rightarrow>
          (case days_loop idx p items st of
             (None, st') \<Rightarrow> st'
           | (Some e, st') \<Rightarrow> handler idx e st'))"

fun events_loop :: "nat \<Rightarrow> pyval list \<Rightarrow> gen_state \<Rightarrow> gen_state" where
  \<comment> \<open>the loop of line 198, \<open>idx\<close> counting the events\<close>
  "events_loop idx [] st = st"
| "events_loop idx (event_data # rest) st = events_loop (Suc idx) rest (process_event idx event_data st)"

definition empty_state :: gen_state where
  \<comment> \<open>the new \<open>Calendar()\<close> of line 196 and an empty log\<close>
  "empty_state = \<lparr>cal_events = [], log_records = []\<rparr>"

definition generate_ics :: "pyval list \<Rightarrow> gen_state" where
  \<comment> \<open>\<open>enumerate(events, start=1)\<close> over a new calendar\<close>
  "generate_ics events = events_loop 1 events empty_state"

definition event_entries :: "pyval \<Rightarrow> ics_event list" where
  \<comment> \<open>what one round of the loop adds to an empty calendar\<close>
  "event_entries event_data = cal_events (process_event 0 event_data empty_state)"

fun item_weekday :: "pyval \<Rightarrow> int option" where
  \<comment> \<open>line 213 on an item that is a string\<close>
  "item_weekday (PStr s) = DAY_MAP (upper s)"
| "item_weekday _ = None"

fun is_str :: "pyval \<Rightarrow> bool" where
  "is_str (PStr s) = True"
| "is_str _ = False"

section \<open>Inputs the properties speak about\<close>

fun is_dict :: "pyval \<Rightarrow> bool" where
  "is_dict (PDict kvs) = True"
| "is_dict _ = False"

fun is_list :: "pyval \<Rightarrow> bool" where
  "is_list (PList xs) = True"
| "is_list _ = False"

definition decode_table :: "string \<Rightarrow> pyval option" where
  \<comment> \<open>a decoder that knows four texts: an object with an event list, an object without
      \<open>events\<close>, an object whose \<open>events\<close> is a number, and a list\<close>
  "decode_table =
     [''{events:[1]}'' \<mapsto> PDict [(''events'', PList [PNum 1])],
      ''{}'' \<mapsto> PDict [],
      ''{events:3}'' \<mapsto> PDict [(''events'', PNum 3)],
      ''[1]'' \<mapsto> PList [PNum 1]]"

definition required_fields :: "string list" where
  "required_fields = [''title'', ''start'', ''end'', ''days'', ''location'', ''notes'', ''end_date'']"

definition missing_field :: "pyval \<Rightarrow> bool" where
  \<comment> \<open>an object without one of the seven keys\<close>
  "missing_field ev =
     (case ev of PDict kvs \<Rightarrow> list_ex (\<lambda>k. map_of kvs k = None) required_fields | _ \<Rightarrow> False)"

definition unparseable :: "(string \<Rightarrow> 'a option) \<Rightarrow> pyval option \<Rightarrow> bool" where
  "unparseable parse v = (case v of Some (PStr s) \<Rightarrow> parse s = None | _ \<Rightarrow> False)"

definition unparseable_date :: "pyval \<Rightarrow> bool" where
  \<comment> \<open>an object whose \<open>start\<close>, \<open>end\<close> or \<open>end_date\<close> text does not match its format\<close>
  "unparseable_date ev =
     (case ev of
        PDict kvs \<Rightarrow>
          unparseable strptime_datetime (map_of kvs ''start'') \<or>
          unparseable strptime_datetime (map_of kvs ''end'') \<or>
          unparseable strptime_date (map_of kvs ''end_date'')
      | _ \<Rightarrow> False)"

definition malformed :: "pyval \<Rightarrow> bool" where
  \<comment> \<open>the \<open>try\<close> block fails before its loop, or no item of \<open>days\<close> is a known code\<close>
  "malformed ev =
     (case read_event ev of
        Inl e \<Rightarrow> True
      | Inr (p, items) \<Rightarrow> list_all (\<lambda>item. is_str item \<and> item_weekday item = None) items)"

definition cs101 :: "string \<Rightarrow> pyval" where
  \<comment> \<open>the event of the end-to-end scenario, with the given \<open>days\<close>\<close>
  "cs101 days =
     PDict [(''title'', PStr ''CS101''), (''start'', PStr ''2024-01-08T09:00:00''),
            (''end'', PStr ''2024-01-08T09:50:00''), (''days'', PStr days),
            (''location'', PStr ''Rm 5''), (''end_date'', PStr ''2024-03-22''),
            (''notes'', PStr ''Prof X'')]"

definition cs101_parsed :: parsed_event where
  "cs101_parsed =
     \<lparr>title = PStr ''CS101'',
      start_dt = combine \<lparr>year = 2024, month = 1, day = 8\<rparr> \<lparr>hour = 9, minute = 0, second = 0\<rparr>,
      end_dt = combine \<lparr>year = 2024, month = 1, day = 8\<rparr> \<lparr>hour = 9, minute = 50, second = 0\<rparr>,
      location = PStr ''Rm 5'', instructor = PStr ''Prof X'',
      end_date = \<lparr>year = 2024, month = 3, day = 22\<rparr>\<rparr>"

definition no_title :: pyval where
  \<comment> \<open>the same event without its \<open>title\<close>\<close>
  "no_title =
     PDict [(''start'', PStr ''2024-01-08T09:00:00''), (''end'', PStr ''2024-01-08T09:50:00''),
            (''days'', PStr ''MWF''), (''location'', PStr ''Rm 5''),
            (''end_date'', PStr ''2024-03-22''), (''notes'', PStr ''Prof X'')]"

definition bad_start :: pyval where
  \<comment> \<open>an event whose \<open>start\<close> is not a date-time\<close>
  "bad_start =
     PDict [(''title'', PStr ''CS101''), (''start'', PStr ''Monday 9am''),
            (''end'', PStr ''2024-01-08T09:50:00''), (''days'', PStr ''MWF''),
            (''location'', PStr ''Rm 5''), (''end_date'', PStr ''2024-03-22''),
            (''notes'', PStr ''Prof X'')]"

definition early_end :: pyval where
  \<comment> \<open>an event with \<open>days = "MM"\<close> whose \<open>end\<close> lies before its \<open>start\<close>\<close>
  "early_end =
     PDict [(''title'', PStr ''CS101''), (''start'', PStr ''2024-01-08T09:00:00''),
            (''end'', PStr ''2024-01-08T08:00:00''), (''days'', PStr ''MM''),
            (''location'', PStr ''Rm 5''), (''end_date'', PStr ''2024-03-22''),
            (''notes'', PStr ''Prof X'')]"


section \<open>Date arithmetic\<close>

lemma div_succ:
  fixes z k :: int
  assumes "1 < k"
  shows "(z + 1) div k = z div k + (if (z + 1) mod k = 0 then 1 else 0)"
proof -
  define r where "r = z mod k"
  define q where "q = z div k"
  have zr: "z = q * k + r" by (simp add: q_def r_def)
  have r: "0 \<le> r" "r < k" using assms by (simp_all add: r_def)
  show ?thesis
  proof (cases "r + 1 = k")
    case True
    then have "z + 1 = (q + 1) * k" using zr by (simp add: algebra_simps)
    then have "(z + 1) div k = q + 1" "(z + 1) mod k = 0" using assms by simp_all
    then show ?thesis by (simp add: q_def)
  next
    case False
    with r have s: "0 \<le> r + 1" "r + 1 < k" by simp_all
    have e: "z + 1 = q * k + (r + 1)" using zr by simp
    have "(z + 1) div k = q + (r + 1) div k" unfolding e using assms by simp
    moreover have "(z + 1) mod k = (r + 1) mod k" unfolding e by simp
    moreover have "(r + 1) div k = 0" "(r + 1) mod k = r + 1" using s by simp_all
    ultimately show ?thesis using s r by (simp add: q_def)
  qed
qed

lemma mod_of_mod:
  fixes z :: int
  shows "(z mod 400 = 0 \<longrightarrow> z mod 100 = 0) \<and> (z mod 100 = 0 \<longrightarrow> z mod 4 = 0)"
proof -
  have "(100::int) dvd 400" "(4::int) dvd 100" by simp_all
  then show ?thesis by (meson dvd_trans mod_0_imp_dvd dvd_imp_mod_0)
qed

lemma days_before_year_Suc:
  "days_before_year (y + 1) = days_before_year y + (if is_leap y then 366 else 365)"
proof -
  define a where "a = (y mod 4 = 0)"
  define b where "b = (y mod 100 = 0)"
  define c where "c = (y mod 400 = 0)"
  have d4: "y div 4 = (y - 1) div 4 + (if a then 1 else 0)"
    using div_succ[of 4 "y - 1"] by (simp add: a_def)
  have d100: "y div 100 = (y - 1) div 100 + (if b then 1 else 0)"
    using div_succ[of 100 "y - 1"] by (simp add: b_def)
  have d400: "y div 400 = (y - 1) div 400 + (if c then 1 else 0)"
    using div_succ[of 400 "y - 1"] by (simp add: c_def)
  have cb: "c \<longrightarrow> b" and ba: "b \<longrightarrow> a"
    unfolding a_def b_def c_def using mod_of_mod[of y] by (rule conjunct1, rule conjunct2)
  have leap: "is_leap y = (a \<and> (\<not> b \<or> c))"
    by (simp only: is_leap_def a_def b_def c_def)
  have "days_before_year (y + 1) = y * 365 + y div 4 - y div 100 + y div 400"
    by (simp add: days_before_year_def)
  also have "\<dots> = days_before_year y + 365 + (if a then 1 else 0)
                 - (if b then 1 else 0) + (if c then 1 else 0)"
    unfolding d4 d100 d400 by (simp add: days_before_year_def Let_def algebra_simps)
  also have "\<dots> = days_before_year y + (if is_leap y then 366 else 365)"
    unfolding leap using cb ba by (cases a; cases b; cases c) simp_all
  finally show ?thesis .
qed

lemma month_cases:
  "1 \<le> m \<Longrightarrow> m \<le> 12 \<Longrightarrow> m = 1 \<or> m = 2 \<or> m = 3 \<or> m = 4 \<or> m = 5 \<or> m = 6 \<or> m = 7 \<or> m = 8 \<or> m = 9 \<or> m = 10 \<or> m = 11 \<or> m = (12::int)"
  by arith

lemma days_before_month_Suc:
  assumes "1 \<le> m" "m < 12"
  shows "days_before_month y (m + 1) = days_before_month y m + days_in_month y m"
proof -
  from assms have "m = 1 \<or> m = 2 \<or> m = 3 \<or> m = 4 \<or> m = 5 \<or> m = 6 \<or> m = 7 \<or> m = 8 \<or> m = 9 \<or> m = 10 \<or> m = 11"
    by arith
  then show ?thesis
    by (elim disjE) (simp_all add: days_before_month_def days_in_month_def)
qed

lemma days_before_month_12:
  "days_before_month y 12 + days_in_month y 12 = (if is_leap y then 366 else 365)"
  by (simp add: days_before_month_def days_in_month_def)

lemma days_before_month_1: "days_before_month y 1 = 0"
  by (simp add: days_before_month_def)

lemma days_in_month_pos: "1 \<le> days_in_month y m"
  by (simp add: days_in_month_def)

lemma next_day_ordinal:
  assumes "valid_date d" "next_day d = Some d'"
  shows "toordinal d' = toordinal d + 1 \<and> valid_date d'"
proof (cases "day d < days_in_month (year d) (month d)")
  case True
  with assms show ?thesis by (auto simp: next_day_def toordinal_def valid_date_def)
next
  case False
  with assms have dd: "day d = days_in_month (year d) (month d)" by (simp add: valid_date_def)
  show ?thesis
  proof (cases "month d < 12")
    case True
    with assms False have "d' = d\<lparr>month := month d + 1, day := 1\<rparr>" by (simp add: next_day_def)
    with assms True dd show ?thesis
      using days_before_month_Suc[of "month d" "year d"] days_in_month_pos[of "year d" "month d + 1"]
      by (simp add: toordinal_def valid_date_def)
  next
    case F2: False
    with assms have m12: "month d = 12" by (simp add: valid_date_def)
    from assms False F2 have y: "year d < 9999" and d': "d' = \<lparr>year = year d + 1, month = 1, day = 1\<rparr>"
      by (auto simp: next_day_def split: if_splits)
    show ?thesis
      using assms(1) y d' m12 dd days_before_year_Suc[of "year d"] days_before_month_12[of "year d"]
      by (simp add: toordinal_def valid_date_def days_before_month_1 days_in_month_pos)
  qed
qed

lemma next_day_None:
  assumes "valid_date d" "next_day d = None"
  shows "toordinal d = max_ordinal"
proof -
  from assms have "year d = 9999" "month d = 12" "day d = 31"
    by (auto simp: next_day_def valid_date_def days_in_month_def split: if_splits)
  then show ?thesis
    by (simp add: toordinal_def max_ordinal_def days_before_year_def days_before_month_def is_leap_def)
qed

lemma add_days_ordinal:
  "valid_date d \<Longrightarrow> add_days d k = Some d' \<Longrightarrow> toordinal d' = toordinal d + int k \<and> valid_date d'"
proof (induction k arbitrary: d)
  case 0
  then show ?case by simp
next
  case (Suc k)
  then obtain d1 where n: "next_day d = Some d1" and a: "add_days d1 k = Some d'"
    by (auto split: option.splits)
  from next_day_ordinal[OF Suc.prems(1) n] Suc.IH[OF _ a] show ?case by simp
qed


lemma add_days_total:
  "valid_date d \<Longrightarrow> toordinal d + int k \<le> max_ordinal \<Longrightarrow> \<exists>d'. add_days d k = Some d'"
proof (induction k arbitrary: d)
  case 0
  then show ?case by simp
next
  case (Suc k)
  show ?case
  proof (cases "next_day d")
    case None
    with Suc.prems next_day_None[of d] show ?thesis by simp
  next
    case (Some d1)
    with next_day_ordinal[OF Suc.prems(1) Some] Suc.IH[of d1] Suc.prems show ?thesis by simp
  qed
qed

section \<open>The first occurrence\<close>

lemma weekday_shift: "(T + (w - (T + 6) mod 7) mod 7 + 6) mod 7 = w mod (7::int)"
proof -
  have "(T + (w - (T + 6) mod 7) mod 7 + 6) mod 7 = ((T + 6) + (w - (T + 6) mod 7) mod 7) mod 7"
    by (simp only: add.commute add.left_commute add.assoc)
  also have "\<dots> = ((T + 6) + (w - (T + 6) mod 7)) mod 7"
    by (rule mod_add_right_eq)
  also have "\<dots> = (w + ((T + 6) - (T + 6) mod 7)) mod 7"
    by (simp only: algebra_simps)
  also have "\<dots> = (w + 7 * ((T + 6) div 7)) mod 7"
    by (simp only: minus_mod_eq_mult_div)
  also have "\<dots> = w mod 7"
    by simp
  finally show ?thesis .
qed

lemma first_event_date_ordinal:
  assumes "valid_date (dt_date start)" and "DAY_MAP (upper code) = Some w"
  shows "days_ahead w start = (w - weekday (dt_date start)) mod 7 \<and>
         0 \<le> days_ahead w start \<and> days_ahead w start \<le> 6 \<and>
         (\<forall>d. first_event_date w start = Some d \<longrightarrow>
              toordinal d = toordinal (dt_date start) + days_ahead w start \<and>
              toordinal (dt_date start) \<le> toordinal d \<and>
              toordinal d \<le> toordinal (dt_date start) + 6 \<and>
              weekday d = w) \<and>
         (toordinal (dt_date start) + 6 \<le> max_ordinal \<longrightarrow> first_event_date w start \<noteq> None)"
proof -
  have b: "0 \<le> days_ahead w start" "days_ahead w start \<le> 6"
    by (simp_all add: days_ahead_def) 
  from assms(2) have w: "0 \<le> w" "w \<le> 6"
    by (auto simp: DAY_MAP_def split: if_splits)
  have ord: "toordinal d = toordinal (dt_date start) + days_ahead w start \<and>
             toordinal (dt_date start) \<le> toordinal d \<and>
             toordinal d \<le> toordinal (dt_date start) + 6 \<and> weekday d = w"
    if "first_event_date w start = Some d" for d
  proof -
    from that add_days_ordinal[OF assms(1), of "nat (days_ahead w start)" d] b
    have e: "toordinal d = toordinal (dt_date start) + days_ahead w start"
      by (simp add: first_event_date_def)
    have "weekday d = (toordinal (dt_date start) + (w - (toordinal (dt_date start) + 6) mod 7) mod 7 + 6) mod 7"
      by (simp only: weekday_def e days_ahead_def)
    also have "\<dots> = w mod 7"
      by (rule weekday_shift)
    finally have "weekday d = w" using w by simp
    with e b show ?thesis by simp
  qed
  have tot: "first_event_date w start \<noteq> None" if "toordinal (dt_date start) + 6 \<le> max_ordinal"
  proof -
    from that b have "toordinal (dt_date start) + int (nat (days_ahead w start)) \<le> max_ordinal"
      by simp
    from add_days_total[OF assms(1) this] show ?thesis
      by (auto simp: first_event_date_def)
  qed
  have d: "days_ahead w start = (w - weekday (dt_date start)) mod 7"
    by (simp add: days_ahead_def)
  from d b ord tot show ?thesis by (intro conjI allI impI) simp_all
qed

text \<open>
  C1.  For a start value with a real date and a day code that \<open>DAY_MAP\<close> sends to the
  weekday \<open>w\<close>, the offset of line 219 is \<open>(w - start.weekday()) mod 7\<close> and lies between
  0 and 6; whenever line 220 yields a date, it is the start date plus that offset, so it
  is never before the start date, at most six days after it, and falls on weekday \<open>w\<close>;
  and line 220 does yield a date unless it would pass 9999-12-31.
\<close>

theorem first_occurrence_date:
  assumes "valid_date (dt_date start)" and "DAY_MAP (upper code) = Some w"
  shows "days_ahead w start = (w - weekday (dt_date start)) mod 7 \<and>
         0 \<le> days_ahead w start \<and> days_ahead w start \<le> 6 \<and>
         (\<forall>d. first_event_date w start = Some d \<longrightarrow>
              toordinal d = toordinal (dt_date start) + days_ahead w start \<and>
              toordinal (dt_date start) \<le> toordinal d \<and>
              toordinal d \<le> toordinal (dt_date start) + 6 \<and>
              weekday d = w) \<and>
         (toordinal (dt_date start) + 6 \<le> max_ordinal \<longrightarrow> first_event_date w start \<noteq> None)"
  using assms by (rule first_event_date_ordinal)

lemma weekday_2024_01_08: "weekday \<lparr>year = 2024, month = 1, day = 8\<rparr> = 0"
  by (simp add: weekday_def toordinal_def days_before_year_def days_before_month_def is_leap_def)

text \<open>
  The example of the specification: from Monday 2024-01-08 the code \<open>W\<close> gives
  Wednesday 2024-01-10.
\<close>

theorem first_occurrence_date_witness:
  "valid_date (dt_date \<lparr>dt_date = \<lparr>year = 2024, month = 1, day = 8\<rparr>, dt_time = \<lparr>hour = 9, minute = 0, second = 0\<rparr>\<rparr>) \<and>
   DAY_MAP (upper ''W'') = Some 2 \<and>
   first_event_date 2 \<lparr>dt_date = \<lparr>year = 2024, month = 1, day = 8\<rparr>, dt_time = \<lparr>hour = 9, minute = 0, second = 0\<rparr>\<rparr>
     = Some \<lparr>year = 2024, month = 1, day = 10\<rparr> \<and>
   toordinal \<lparr>year = 2024, month = 1, day = 10\<rparr> = toordinal \<lparr>year = 2024, month = 1, day = 8\<rparr> + 2 \<and>
   weekday \<lparr>year = 2024, month = 1, day = 10\<rparr> = 2"
proof -
  let ?s = "\<lparr>dt_date = \<lparr>year = 2024, month = 1, day = 8\<rparr>, dt_time = \<lparr>hour = 9, minute = 0, second = 0\<rparr>\<rparr>"
  have v: "valid_date (dt_date ?s)" by (simp add: valid_date_def days_in_month_def)
  have m: "DAY_MAP (upper ''W'') = Some 2" by (simp add: DAY_MAP_def upper_def upper_char_def)
  have d: "days_ahead 2 ?s = 2" by (simp add: days_ahead_def weekday_2024_01_08)
  have f: "first_event_date 2 ?s = Some \<lparr>year = 2024, month = 1, day = 10\<rparr>"
    by (simp add: first_event_date_def d eval_nat_numeral next_day_def days_in_month_def)
  from first_occurrence_date[OF v m] f d v m show ?thesis by simp
qed

section \<open>Events are added in the order of the input\<close>

lemma cal_events_empty_state: "cal_events empty_state = []"
  by (simp add: empty_state_def)

lemma new_event_cases:
  "new_event p d =
     (if time_less (dt_time (end_dt p)) (dt_time (start_dt p)) then Inl ValueError
      else Inr (event_fields p d))"
  by (simp add: new_event_def event_fields_def datetime_less_def date_less_def combine_def Let_def)


lemma days_loop_cal_events:
  "cal_events (snd (days_loop idx p items st)) =
     cal_events st @ cal_events (snd (days_loop idx' p items empty_state))"
proof (induction items arbitrary: st idx idx')
  case Nil
  then show ?case by (simp add: cal_events_empty_state)
next
  case (Cons item rest)
  let ?X = "cal_events (snd (days_loop idx' p rest empty_state))"
  show ?case
  proof (cases item)
    case (PStr s)
    show ?thesis
    proof (cases "DAY_MAP (upper s)")
      case None
      let ?l = "Warning_unrecognized_day idx (PStr s)"
      let ?l' = "Warning_unrecognized_day idx' (PStr s)"
      have "cal_events (snd (days_loop idx p (item # rest) st)) =
            cal_events (snd (days_loop idx p rest (st\<lparr>log_records := log_records st @ [?l]\<rparr>)))"
        using None PStr by simp
      also have "\<dots> = cal_events st @ ?X"
        by (subst Cons.IH[of idx _ idx']) simp
      finally have l: "cal_events (snd (days_loop idx p (item # rest) st)) = cal_events st @ ?X" .
      have "cal_events (snd (days_loop idx' p (item # rest) empty_state)) =
            cal_events (snd (days_loop idx' p rest
              (empty_state\<lparr>log_records := log_records empty_state @ [?l']\<rparr>)))"
        using None PStr by simp
      also have "\<dots> = ?X"
        by (subst Cons.IH[of idx' _ idx']) (simp add: cal_events_empty_state)
      finally show ?thesis using l by simp
    next
      case (Some w)
      note w = Some
      show ?thesis
      proof (cases "first_event_date w (start_dt p)")
        case None
        with w PStr show ?thesis by (simp add: cal_events_empty_state)
      next
        case (Some d)
        note d = Some
        show ?thesis
        proof (cases "new_event p d")
          case (Inl x)
          with d w PStr show ?thesis by (simp add: cal_events_empty_state)
        next
          case (Inr ev)
          have "cal_events (snd (days_loop idx p (item # rest) st)) =
                cal_events (snd (days_loop idx p rest (st\<lparr>cal_events := cal_events st @ [ev]\<rparr>)))"
            using Inr d w PStr by simp
          also have "\<dots> = cal_events st @ [ev] @ ?X"
            by (subst Cons.IH[of idx _ idx']) simp
          finally have l: "cal_events (snd (days_loop idx p (item # rest) st)) =
                           cal_events st @ [ev] @ ?X" .
          have "cal_events (snd (days_loop idx' p (item # rest) empty_state)) =
                cal_events (snd (days_loop idx' p rest
                  (empty_state\<lparr>cal_events := cal_events empty_state @ [ev]\<rparr>)))"
            using Inr d w PStr by simp
          also have "\<dots> = [ev] @ ?X"
            by (subst Cons.IH[of idx' _ idx']) (simp add: cal_events_empty_state)
          finally show ?thesis using l by simp
        qed
      qed
    qed
  qed (simp_all add: cal_events_empty_state)
qed

lemma handler_cal_events: "cal_events (handler idx e st) = cal_events st"
  by (cases e) (simp_all add: handler_def)

lemma process_event_days_loop:
  assumes "read_event ev = Inr (p, items)"
  shows "cal_events (process_event idx ev st) = cal_events (snd (days_loop idx p items st))"
proof (cases "days_loop idx p items st")
  case (Pair exc st')
  with assms show ?thesis
    by (cases exc) (simp_all add: process_event_def handler_cal_events)
qed

lemma process_event_cal_events:
  "cal_events (process_event idx ev st) = cal_events st @ event_entries ev"
proof (cases "read_event ev")
  case (Inl e)
  then show ?thesis
    by (simp add: process_event_def event_entries_def handler_cal_events cal_events_empty_state)
next
  case (Inr r)
  obtain p items where r: "r = (p, items)" by (cases r)
  show ?thesis
    unfolding event_entries_def process_event_days_loop[OF Inr[unfolded r]]
    using days_loop_cal_events[of idx p items st 0] by simp
qed

lemma events_loop_cal_events:
  "cal_events (events_loop idx events st) = cal_events st @ concat (map event_entries events)"
  by (induction events arbitrary: idx st) (simp_all add: process_event_cal_events)

lemma generate_ics_entries:
  "cal_events (generate_ics events) = concat (map event_entries events)"
  by (simp add: generate_ics_def events_loop_cal_events cal_events_empty_state)

lemma event_entries_malformed:
  "read_event ev = Inl e \<Longrightarrow> event_entries ev = []"
  by (simp add: event_entries_def process_event_def handler_cal_events cal_events_empty_state)

lemma strptime_datetime_valid:
  "strptime_datetime s = Some dt \<Longrightarrow> valid_date (dt_date dt) \<and> valid_time (dt_time dt)"
  by (auto simp: strptime_datetime_def make_date_def make_time_def combine_def Let_def
           split: Option.bind_splits prod.splits if_splits)

lemma strptime_date_valid:
  "strptime_date s = Some d \<Longrightarrow> valid_date d"
  by (auto simp: strptime_date_def make_date_def Let_def
           split: Option.bind_splits prod.splits if_splits)

lemma read_event_fields:
  assumes "read_event ev = Inr (p, items)"
  shows "\<exists>kvs s1 s2 s3 days.
           ev = PDict kvs \<and>
           map_of kvs ''title'' = Some (title p) \<and>
           map_of kvs ''start'' = Some (PStr s1) \<and> strptime_datetime s1 = Some (start_dt p) \<and>
           map_of kvs ''end'' = Some (PStr s2) \<and> strptime_datetime s2 = Some (end_dt p) \<and>
           map_of kvs ''days'' = Some days \<and> iter_items days = Inr items \<and>
           map_of kvs ''location'' = Some (location p) \<and>
           map_of kvs ''notes'' = Some (instructor p) \<and>
           map_of kvs ''end_date'' = Some (PStr s3) \<and> strptime_date s3 = Some (end_date p)"
proof -
  obtain kvs where ev: "ev = PDict kvs"
    using assms by (cases ev) (simp_all add: read_event_def bind_def)
  from assms show ?thesis
    unfolding ev read_event_def bind_def strptime_def
    by (auto split: sum.splits option.splits pyval.splits)
qed

lemma days_loop_mem:
  "e \<in> set (cal_events (snd (days_loop idx p items st))) \<Longrightarrow>
   e \<in> set (cal_events st) \<or>
   (\<exists>item \<in> set items. \<exists>w d. item_weekday item = Some w \<and>
        first_event_date w (start_dt p) = Some d \<and> new_event p d = Inr e)"
proof (induction items arbitrary: st)
  case Nil
  then show ?case by simp
next
  case (Cons item rest)
  show ?case
  proof (cases item)
    case (PStr s)
    show ?thesis
    proof (cases "DAY_MAP (upper s)")
      case None
      with Cons.prems PStr
      have "e \<in> set (cal_events (snd (days_loop idx p rest
                (st\<lparr>log_records := log_records st @ [Warning_unrecognized_day idx (PStr s)]\<rparr>))))"
        by simp
      from Cons.IH[OF this] show ?thesis by auto
    next
      case (Some w)
      note w = Some
      show ?thesis
      proof (cases "first_event_date w (start_dt p)")
        case None
        with w PStr Cons.prems show ?thesis by simp
      next
        case (Some d)
        note d = Some
        show ?thesis
        proof (cases "new_event p d")
          case (Inl x)
          with d w PStr Cons.prems show ?thesis by simp
        next
          case (Inr ev)
          with d w PStr Cons.prems
          have "e \<in> set (cal_events (snd (days_loop idx p rest
                  (st\<lparr>cal_events := cal_events st @ [ev]\<rparr>))))"
            by simp
          from Cons.IH[OF this] have
            "e \<in> set (cal_events st) \<or> e = ev \<or>
             (\<exists>item \<in> set rest. \<exists>w d. item_weekday item = Some w \<and>
                first_event_date w (start_dt p) = Some d \<and> new_event p d = Inr e)"
            by auto
          moreover have "item_weekday item = Some w" using w PStr by simp
          ultimately show ?thesis using d Inr by auto
        qed
      qed
    qed
  qed (use Cons.prems in simp_all)
qed

lemma days_loop_filter:
  "list_all is_str items \<Longrightarrow>
   cal_events (snd (days_loop idx p (filter (\<lambda>item. item_weekday item \<noteq> None) items) st)) =
   cal_events (snd (days_loop idx p items st))"
proof (induction items arbitrary: st)
  case Nil
  then show ?case by simp
next
  case (Cons item rest)
  then obtain s where s: "item = PStr s" by (cases item) simp_all
  from Cons.prems have r: "list_all is_str rest" by simp
  show ?case
  proof (cases "DAY_MAP (upper s)")
    case None
    have "cal_events (snd (days_loop idx p (item # rest) st)) =
          cal_events (snd (days_loop idx p rest
            (st\<lparr>log_records := log_records st @ [Warning_unrecognized_day idx (PStr s)]\<rparr>)))"
      using None s by simp
    also have "\<dots> = cal_events st @ cal_events (snd (days_loop idx p rest empty_state))"
      by (subst days_loop_cal_events[of idx p rest _ idx]) simp
    also have "\<dots> = cal_events (snd (days_loop idx p rest st))"
      by (subst (2) days_loop_cal_events[of idx p rest _ idx]) simp
    finally show ?thesis using None s Cons.IH[OF r, of st] by simp
  next
    case (Some w)
    then show ?thesis using s Cons.IH[OF r] by (simp split: option.splits sum.splits)
  qed
qed

lemma days_loop_wellformed:
  assumes "valid_date (dt_date (start_dt p))"
      and "toordinal (dt_date (start_dt p)) + 6 \<le> max_ordinal"
      and "\<not> time_less (dt_time (end_dt p)) (dt_time (start_dt p))"
      and "list_all is_str items"
  shows "\<exists>ds. cal_events (snd (days_loop idx p items st)) = cal_events st @ map (event_fields p) ds \<and>
              map Some ds = map (\<lambda>w. first_event_date w (start_dt p)) (List.map_filter item_weekday items)"
  using assms(4)
proof (induction items arbitrary: st)
  case Nil
  then show ?case by (simp add: List.map_filter_simps)
next
  case (Cons item rest)
  then obtain s where s: "item = PStr s" by (cases item) simp_all
  from Cons.prems have r: "list_all is_str rest" by simp
  show ?case
  proof (cases "DAY_MAP (upper s)")
    case None
    from Cons.IH[OF r, of "st\<lparr>log_records := log_records st @ [Warning_unrecognized_day idx (PStr s)]\<rparr>"]
    show ?thesis using None s by (simp add: List.map_filter_simps)
  next
    case (Some w)
    from first_event_date_ordinal[OF assms(1) Some] assms(2)
    obtain d where d: "first_event_date w (start_dt p) = Some d" by auto
    have n: "new_event p d = Inr (event_fields p d)"
      using assms(3) by (simp add: new_event_cases)
    from Cons.IH[OF r, of "st\<lparr>cal_events := cal_events st @ [event_fields p d]\<rparr>"]
    obtain ds where ds: "cal_events (snd (days_loop idx p rest (st\<lparr>cal_events := cal_events st @ [event_fields p d]\<rparr>))) =
        cal_events st @ [event_fields p d] @ map (event_fields p) ds"
       "map Some ds = map (\<lambda>w. first_event_date w (start_dt p)) (List.map_filter item_weekday rest)"
      by auto
    show ?thesis
      by (rule exI[of _ "d # ds"]) (use Some s d n ds in \<open>simp add: List.map_filter_simps\<close>)
  qed
qed

section \<open>The example inputs\<close>

lemma strptime_0900: "strptime_datetime ''2024-01-08T09:00:00'' =
   Some (combine \<lparr>year = 2024, month = 1, day = 8\<rparr> \<lparr>hour = 9, minute = 0, second = 0\<rparr>)"
  by (simp add: strptime_datetime_def split_at_def match_Y_def match_m_def match_d_def match_H_def
        match_M_def match_S_def digits_between_def isdigit_def int_of_digits_def make_date_def
        make_time_def valid_date_def valid_time_def days_in_month_def)

lemma strptime_0950: "strptime_datetime ''2024-01-08T09:50:00'' =
   Some (combine \<lparr>year = 2024, month = 1, day = 8\<rparr> \<lparr>hour = 9, minute = 50, second = 0\<rparr>)"
  by (simp add: strptime_datetime_def split_at_def match_Y_def match_m_def match_d_def match_H_def
        match_M_def match_S_def digits_between_def isdigit_def int_of_digits_def make_date_def
        make_time_def valid_date_def valid_time_def days_in_month_def)

lemma strptime_end_date: "strptime_date ''2024-03-22'' = Some \<lparr>year = 2024, month = 3, day = 22\<rparr>"
  by (simp add: strptime_date_def split_at_def match_Y_def match_m_def match_d_def
        digits_between_def isdigit_def int_of_digits_def make_date_def
        valid_date_def days_in_month_def)

lemma strptime_bad: "strptime_datetime ''Monday 9am'' = None"
  by (simp add: strptime_datetime_def split_at_def)

lemma read_event_cs101:
  "read_event (cs101 days) = Inr (cs101_parsed, map (\<lambda>c. PStr [c]) days)"
  by (simp add: read_event_def cs101_def cs101_parsed_def bind_def strptime_def
        strptime_0900 strptime_0950 strptime_end_date)

lemma read_event_no_title: "read_event no_title = Inl (KeyError ''title'')"
  by (simp add: read_event_def no_title_def bind_def)

lemma read_event_bad_start: "read_event bad_start = Inl ValueError"
  by (simp add: read_event_def bad_start_def bind_def strptime_def strptime_bad)

section \<open>Malformed events\<close>

lemma missing_field_fails:
  assumes "missing_field ev"
  shows "\<exists>k. read_event ev = Inl (KeyError k)"
proof -
  from assms obtain kvs where ev: "ev = PDict kvs"
    by (cases ev) (simp_all add: missing_field_def)
  from assms show ?thesis
    unfolding ev missing_field_def read_event_def bind_def required_fields_def
    by (auto split: option.splits)
qed

lemma unparseable_date_fails:
  assumes "unparseable_date ev"
  shows "\<exists>e. read_event ev = Inl e"
proof (rule ccontr)
  assume "\<not> ?thesis"
  then obtain p items where "read_event ev = Inr (p, items)"
    by (cases "read_event ev") auto
  from read_event_fields[OF this] assms show False
    by (auto simp: unparseable_date_def unparseable_def)
qed

lemma event_entries_no_codes:
  assumes "read_event ev = Inr (p, items)"
      and "list_all (\<lambda>item. is_str item \<and> item_weekday item = None) items"
  shows "event_entries ev = []"
proof -
  have "cal_events (snd (days_loop 0 p items empty_state)) = []"
  proof (rule ccontr)
    assume "cal_events (snd (days_loop 0 p items empty_state)) \<noteq> []"
    then obtain e where "e \<in> set (cal_events (snd (days_loop 0 p items empty_state)))"
      by (cases "cal_events (snd (days_loop 0 p items empty_state))") auto
    from days_loop_mem[OF this] assms(2) show False
      by (auto simp: cal_events_empty_state list_all_iff)
  qed
  then show ?thesis
    by (simp add: event_entries_def process_event_days_loop[OF assms(1)])
qed

lemma event_entries_malformed':
  "malformed ev \<Longrightarrow> event_entries ev = []"
  by (cases "read_event ev")
     (auto simp: malformed_def event_entries_malformed event_entries_no_codes)

text \<open>
  C4.  An event that lacks one of the seven fields, or whose \<open>start\<close>, \<open>end\<close> or
  \<open>end_date\<close> text does not parse, adds nothing to the calendar, and the calendar of
  the whole batch is the one the batch without that event yields.  No exception leaves
  the loop: the failure ends in a log record.
\<close>

theorem malformed_event_isolated:
  assumes "missing_field bad \<or> unparseable_date bad"
  shows "event_entries bad = [] \<and>
         cal_events (generate_ics (before @ bad # after)) = cal_events (generate_ics (before @ after))"
proof -
  from assms missing_field_fails[of bad] unparseable_date_fails[of bad]
  obtain e where "read_event bad = Inl e" by auto
  then have "event_entries bad = []" by (rule event_entries_malformed)
  then show ?thesis by (simp add: generate_ics_entries)
qed

text \<open>
  The batch of the specification: three events, the second without \<open>title\<close>; and a
  batch whose first event has a \<open>start\<close> that is no date-time.
\<close>

theorem malformed_event_isolated_witness:
  "(missing_field no_title \<or> unparseable_date no_title) \<and>
   cal_events (generate_ics ([cs101 ''MWF''] @ no_title # [cs101 ''TR''])) =
   cal_events (generate_ics ([cs101 ''MWF''] @ [cs101 ''TR''])) \<and>
   unparseable_date bad_start \<and>
   cal_events (generate_ics ([] @ bad_start # [cs101 ''TR''])) = cal_events (generate_ics ([] @ [cs101 ''TR'']))"
proof -
  have m: "missing_field no_title \<or> unparseable_date no_title"
    by (simp add: missing_field_def no_title_def required_fields_def)
  have u: "unparseable_date bad_start"
    by (simp add: unparseable_date_def unparseable_def bad_start_def strptime_bad)
  then have u': "missing_field bad_start \<or> unparseable_date bad_start" ..
  from malformed_event_isolated[OF m, of "[cs101 ''MWF'']" "[cs101 ''TR'']"]
       malformed_event_isolated[OF u', of "[]" "[cs101 ''TR'']"] m u
  show ?thesis by simp
qed

text \<open>
  C9.  If every event of the batch is malformed (its \<open>try\<close> block fails before the loop
  over \<open>days\<close>, or none of its day codes is known), and in particular if the batch is
  empty, \<open>generate_ics\<close> returns normally with a calendar that has no events.
\<close>

theorem all_malformed_empty_calendar:
  assumes "\<forall>ev \<in> set events. malformed ev"
  shows "cal_events (generate_ics events) = []"
  using assms by (simp add: generate_ics_entries event_entries_malformed')

text \<open>
  A batch of four malformed events (a missing field, a bad date, a number in place of
  an object, only unknown day codes), and the empty batch.
\<close>

theorem all_malformed_empty_calendar_witness:
  "malformed no_title \<and> malformed bad_start \<and> malformed (PNum 3) \<and> malformed (cs101 ''XYZ'') \<and>
   cal_events (generate_ics [no_title, bad_start, PNum 3, cs101 ''XYZ'']) = [] \<and>
   cal_events (generate_ics []) = []"
proof -
  have x: "malformed (cs101 ''XYZ'')"
    by (simp add: malformed_def read_event_cs101 DAY_MAP_def upper_def upper_char_def)
  have n: "malformed (PNum 3)"
    by (simp add: malformed_def read_event_def bind_def)
  have t: "malformed no_title" "malformed bad_start"
    by (simp_all add: malformed_def read_event_no_title read_event_bad_start)
  have h: "\<forall>ev \<in> set [no_title, bad_start, PNum 3, cs101 ''XYZ'']. malformed ev"
    using x n t by simp
  have h0: "\<forall>ev \<in> set ([] :: pyval list). malformed ev" by simp
  from all_malformed_empty_calendar[OF h] all_malformed_empty_calendar[OF h0] x n t
  show ?thesis by simp
qed

section \<open>The day codes\<close>

lemma of_char_upper_char:
  "(of_char (upper_char c) :: nat) =
     (if (97 \<le> (of_char c :: nat) \<and> (of_char c :: nat) \<le> 122) \<or>
         (224 \<le> (of_char c :: nat) \<and> (of_char c :: nat) \<le> 254 \<and> (of_char c :: nat) \<noteq> 247)
      then of_char c - 32 else of_char c)"
proof -
  have "(of_char c :: nat) < 256" by simp
  then have "((of_char c :: nat) - 32) mod 256 = of_char c - 32"
    by (intro mod_less) arith
  then show ?thesis by (simp add: upper_char_def Let_def)
qed

lemma upper_single:
  assumes "(of_char x :: nat) = k" and "65 \<le> k" and "k \<le> 90"
  shows "upper [c] = [x] \<longleftrightarrow> (of_char c :: nat) = k \<or> (of_char c :: nat) = k + 32"
proof -
  have "upper [c] = [x] \<longleftrightarrow> (of_char (upper_char c) :: nat) = k"
    unfolding assms(1)[symmetric] by (simp add: upper_def)
  also have "\<dots> \<longleftrightarrow> (of_char c :: nat) = k \<or> (of_char c :: nat) = k + 32"
    unfolding of_char_upper_char using assms(2,3) by auto
  finally show ?thesis .
qed

lemma char_is: "(of_char x :: nat) = k \<Longrightarrow> c = x \<longleftrightarrow> (of_char c :: nat) = k"
  by auto

lemma day_code_table:
  "DAY_MAP (upper [c]) =
     (if c = CHR ''M'' \<or> c = CHR ''m'' then Some 0
      else if c = CHR ''T'' \<or> c = CHR ''t'' then Some 1
      else if c = CHR ''W'' \<or> c = CHR ''w'' then Some 2
      else if c = CHR ''R'' \<or> c = CHR ''r'' then Some 3
      else if c = CHR ''F'' \<or> c = CHR ''f'' then Some 4
      else None)"
proof -
  have M: "upper [c] = ''M'' \<longleftrightarrow> c = CHR ''M'' \<or> c = CHR ''m''"
    by (subst upper_single[of _ 77]; simp?) (simp add: char_is[of _ 77] char_is[of _ 109])
  have T: "upper [c] = ''T'' \<longleftrightarrow> c = CHR ''T'' \<or> c = CHR ''t''"
    by (subst upper_single[of _ 84]; simp?) (simp add: char_is[of _ 84] char_is[of _ 116])
  have W: "upper [c] = ''W'' \<longleftrightarrow> c = CHR ''W'' \<or> c = CHR ''w''"
    by (subst upper_single[of _ 87]; simp?) (simp add: char_is[of _ 87] char_is[of _ 119])
  have R: "upper [c] = ''R'' \<longleftrightarrow> c = CHR ''R'' \<or> c = CHR ''r''"
    by (subst upper_single[of _ 82]; simp?) (simp add: char_is[of _ 82] char_is[of _ 114])
  have F: "upper [c] = ''F'' \<longleftrightarrow> c = CHR ''F'' \<or> c = CHR ''f''"
    by (subst upper_single[of _ 70]; simp?) (simp add: char_is[of _ 70] char_is[of _ 102])
  show ?thesis
    unfolding DAY_MAP_def fun_upd_apply M T W R F
    by simp
qed

section \<open>Times of day\<close>



lemma new_event_cs101: "new_event cs101_parsed d = Inr (event_fields cs101_parsed d)"
  by (simp add: new_event_cases cs101_parsed_def combine_def time_less_def)

lemma first_event_date_cs101_M:
  "first_event_date 0 (start_dt cs101_parsed) = Some \<lparr>year = 2024, month = 1, day = 8\<rparr>"
  by (simp add: first_event_date_def days_ahead_def cs101_parsed_def combine_def weekday_2024_01_08)

lemma first_event_date_cs101_W:
  "first_event_date 2 (start_dt cs101_parsed) = Some \<lparr>year = 2024, month = 1, day = 10\<rparr>"
  by (simp add: first_event_date_def days_ahead_def cs101_parsed_def combine_def weekday_2024_01_08
        eval_nat_numeral next_day_def days_in_month_def)


lemma day_codes_MWF:
  "DAY_MAP (upper ''M'') = Some 0" "DAY_MAP (upper ''W'') = Some 2" "DAY_MAP (upper ''F'') = Some 4"
  "DAY_MAP (upper ''X'') = None" "DAY_MAP (upper ''m'') = Some 0"
  by (simp_all add: day_code_table)

lemma generate_ics_single:
  "read_event ev = Inr (p, items) \<Longrightarrow>
   cal_events (generate_ics [ev]) = cal_events (snd (days_loop 0 p items empty_state))"
  by (simp add: generate_ics_entries event_entries_def process_event_days_loop)



section \<open>One calendar event per day code\<close>

lemma generate_ics_wellformed:
  assumes "read_event ev = Inr (p, items)"
      and "list_all is_str items"
      and "\<not> time_less (dt_time (end_dt p)) (dt_time (start_dt p))"
      and "toordinal (dt_date (start_dt p)) + 6 \<le> max_ordinal"
  shows "\<exists>ds. cal_events (generate_ics [ev]) = map (event_fields p) ds \<and>
              map Some ds = map (\<lambda>w. first_event_date w (start_dt p)) (List.map_filter item_weekday items)"
proof -
  from read_event_fields[OF assms(1)] obtain s1 where "strptime_datetime s1 = Some (start_dt p)"
    by blast
  from strptime_datetime_valid[OF this] have v: "valid_date (dt_date (start_dt p))" ..
  from days_loop_wellformed[OF v assms(4) assms(3) assms(2), of 0 empty_state]
  show ?thesis
    by (simp add: generate_ics_single[OF assms(1)] cal_events_empty_state)
qed

lemma map_filter_weekday_range:
  "w \<in> set (List.map_filter item_weekday items) \<Longrightarrow> \<exists>s. DAY_MAP (upper s) = Some w"
proof -
  assume "w \<in> set (List.map_filter item_weekday items)"
  then obtain item where "item_weekday item = Some w"
    by (auto simp: List.map_filter_def)
  then show ?thesis by (cases item) auto
qed

lemma anchors_weekdays:
  assumes "valid_date (dt_date start)"
      and "map Some ds = map (\<lambda>w. first_event_date w start) ws"
      and "\<forall>w \<in> set ws. \<exists>s. DAY_MAP (upper s) = Some w"
  shows "map weekday ds = ws"
  using assms(2,3)
proof (induction ws arbitrary: ds)
  case Nil
  then show ?case by simp
next
  case (Cons w ws)
  then obtain d ds' where ds: "ds = d # ds'" "first_event_date w start = Some d"
      "map Some ds' = map (\<lambda>w. first_event_date w start) ws"
    by (cases ds) auto
  from Cons.prems(2) obtain s where s: "DAY_MAP (upper s) = Some w" by auto
  from first_event_date_ordinal[OF assms(1) s] ds(2) have "weekday d = w" by simp
  with Cons.IH[OF ds(3)] Cons.prems(2) ds(1) show ?case by simp
qed

text \<open>
  C5, as the code has it.  Take a well-formed event: its seven fields are there, the
  title, location and notes are strings, \<open>start\<close>, \<open>end\<close> and \<open>end_date\<close> parse,
  \<open>days\<close> yields only strings, the time of day of \<open>end\<close> is not before that of
  \<open>start\<close>, and the start date is at least six days before 9999-12-31.  Then
  \<open>generate_ics\<close> adds exactly one calendar event for every valid day code, each on the
  weekday of its code; all of them carry the times of day of \<open>start\<close> and \<open>end\<close> and
  the same recurrence rule; and the anchor dates differ from one another whenever the
  codes name different weekdays.
\<close>

theorem fan_out:
  assumes "read_event ev = Inr (p, items)"
      and "is_str (title p) \<and> is_str (location p) \<and> is_str (instructor p)"
      and "list_all is_str items"
      and "\<not> time_less (dt_time (end_dt p)) (dt_time (start_dt p))"
      and "toordinal (dt_date (start_dt p)) + 6 \<le> max_ordinal"
  shows "length (cal_events (generate_ics [ev])) = length (List.map_filter item_weekday items) \<and>
         map (\<lambda>e. weekday (dt_date (ev_begin e))) (cal_events (generate_ics [ev]))
           = List.map_filter item_weekday items \<and>
         (\<forall>e \<in> set (cal_events (generate_ics [ev])).
            dt_time (ev_begin e) = dt_time (start_dt p) \<and>
            dt_time (ev_end e) = dt_time (end_dt p) \<and>
            dt_date (ev_end e) = dt_date (ev_begin e) \<and>
            ev_rrule e = [(''freq'', ''WEEKLY''), (''until'', strftime (end_date p))]) \<and>
         (distinct (List.map_filter item_weekday items) \<longrightarrow>
            distinct (map (\<lambda>e. dt_date (ev_begin e)) (cal_events (generate_ics [ev]))))"
proof -
  let ?ws = "List.map_filter item_weekday items"
  from generate_ics_wellformed[OF assms(1) assms(3) assms(4) assms(5)]
  obtain ds where out: "cal_events (generate_ics [ev]) = map (event_fields p) ds"
      and ds: "map Some ds = map (\<lambda>w. first_event_date w (start_dt p)) ?ws"
    by blast
  from read_event_fields[OF assms(1)] obtain s1 where "strptime_datetime s1 = Some (start_dt p)"
    by blast
  from strptime_datetime_valid[OF this] have v: "valid_date (dt_date (start_dt p))" ..
  have len: "length ds = length ?ws"
    using ds by (metis length_map)
  have wd: "map weekday ds = ?ws"
    using anchors_weekdays[OF v ds] map_filter_weekday_range by blast
  have a: "map (\<lambda>e. weekday (dt_date (ev_begin e))) (map (event_fields p) ds) = map weekday ds"
    by (simp add: event_fields_def combine_def comp_def)
  have b: "map (\<lambda>e. dt_date (ev_begin e)) (map (event_fields p) ds) = ds"
    by (simp add: event_fields_def combine_def comp_def)
  have c: "distinct ds" if "distinct ?ws"
    using that wd by (metis distinct_map)
  have e: "dt_time (ev_begin e) = dt_time (start_dt p) \<and>
           dt_time (ev_end e) = dt_time (end_dt p) \<and>
           dt_date (ev_end e) = dt_date (ev_begin e) \<and>
           ev_rrule e = [(''freq'', ''WEEKLY''), (''until'', strftime (end_date p))]"
    if "e \<in> set (map (event_fields p) ds)" for e
    using that by (auto simp: event_fields_def combine_def)
  show ?thesis
    unfolding out a b using len wd c e by simp
qed

section \<open>Repeated day codes\<close>

lemma weekday_2024_01_10: "weekday \<lparr>year = 2024, month = 1, day = 10\<rparr> = 2"
  by (simp add: weekday_def toordinal_def days_before_year_def days_before_month_def is_leap_def)

lemma weekday_2024_01_12: "weekday \<lparr>year = 2024, month = 1, day = 12\<rparr> = 4"
  by (simp add: weekday_def toordinal_def days_before_year_def days_before_month_def is_leap_def)

lemma cs101_start_in_range: "toordinal (dt_date (start_dt cs101_parsed)) + 6 \<le> max_ordinal"
  by (simp add: cs101_parsed_def combine_def toordinal_def days_before_year_def
        days_before_month_def is_leap_def max_ordinal_def)

lemma cs101_strings:
  "is_str (title cs101_parsed) \<and> is_str (location cs101_parsed) \<and> is_str (instructor cs101_parsed)"
  by (simp add: cs101_parsed_def)

lemma cs101_end_after_start:
  "\<not> time_less (dt_time (end_dt cs101_parsed)) (dt_time (start_dt cs101_parsed))"
  by (simp add: cs101_parsed_def combine_def time_less_def)

lemma strptime_0800: "strptime_datetime ''2024-01-08T08:00:00'' =
   Some (combine \<lparr>year = 2024, month = 1, day = 8\<rparr> \<lparr>hour = 8, minute = 0, second = 0\<rparr>)"
  by (simp add: strptime_datetime_def split_at_def match_Y_def match_m_def match_d_def match_H_def
        match_M_def match_S_def digits_between_def isdigit_def int_of_digits_def make_date_def
        make_time_def valid_date_def valid_time_def days_in_month_def)

lemma read_event_early_end:
  "read_event early_end =
     Inr (cs101_parsed\<lparr>end_dt :=
            combine \<lparr>year = 2024, month = 1, day = 8\<rparr> \<lparr>hour = 8, minute = 0, second = 0\<rparr>\<rparr>,
          [PStr ''M'', PStr ''M''])"
  by (simp add: read_event_def early_end_def cs101_parsed_def bind_def strptime_def
        strptime_0900 strptime_0800 strptime_end_date)

lemma cal_events_early_end: "cal_events (generate_ics [early_end]) = []"
proof -
  let ?p = "cs101_parsed\<lparr>end_dt :=
              combine \<lparr>year = 2024, month = 1, day = 8\<rparr> \<lparr>hour = 8, minute = 0, second = 0\<rparr>\<rparr>"
  have s: "start_dt ?p = start_dt cs101_parsed" by simp
  have f: "first_event_date 0 (start_dt ?p) = Some \<lparr>year = 2024, month = 1, day = 8\<rparr>"
    unfolding s by (rule first_event_date_cs101_M)
  have n: "new_event ?p d = Inl ValueError" for d
    by (simp add: new_event_cases cs101_parsed_def combine_def time_less_def)
  have "cal_events (snd (days_loop 0 ?p [PStr ''M'', PStr ''M''] empty_state)) = []"
    by (simp only: days_loop.simps day_codes_MWF f n option.case sum.case snd_conv
          cal_events_empty_state)
  then show ?thesis
    by (simp only: generate_ics_single[OF read_event_early_end])
qed








text \<open>
  The fan-out example of the specification: \<open>MWF\<close> gives three entries, on Monday,
  Wednesday and Friday.
\<close>

theorem fan_out_witness:
  "read_event (cs101 ''MWF'') = Inr (cs101_parsed, [PStr ''M'', PStr ''W'', PStr ''F'']) \<and>
   is_str (title cs101_parsed) \<and> is_str (location cs101_parsed) \<and> is_str (instructor cs101_parsed) \<and>
   list_all is_str [PStr ''M'', PStr ''W'', PStr ''F''] \<and>
   \<not> time_less (dt_time (end_dt cs101_parsed)) (dt_time (start_dt cs101_parsed)) \<and>
   toordinal (dt_date (start_dt cs101_parsed)) + 6 \<le> max_ordinal \<and>
   List.map_filter item_weekday [PStr ''M'', PStr ''W'', PStr ''F''] = [0, 2, 4] \<and>
   length (cal_events (generate_ics [cs101 ''MWF''])) = 3 \<and>
   map (\<lambda>e. weekday (dt_date (ev_begin e))) (cal_events (generate_ics [cs101 ''MWF''])) = [0, 2, 4] \<and>
   distinct (map (\<lambda>e. dt_date (ev_begin e)) (cal_events (generate_ics [cs101 ''MWF''])))"
proof -
  have r: "read_event (cs101 ''MWF'') = Inr (cs101_parsed, [PStr ''M'', PStr ''W'', PStr ''F''])"
    by (simp add: read_event_cs101)
  have s: "list_all is_str [PStr ''M'', PStr ''W'', PStr ''F'']" by simp
  have w: "List.map_filter item_weekday [PStr ''M'', PStr ''W'', PStr ''F''] = [0, 2, 4]"
    by (simp add: List.map_filter_simps day_codes_MWF)
  from fan_out[OF r cs101_strings s cs101_end_after_start cs101_start_in_range]
       r s w cs101_strings cs101_end_after_start cs101_start_in_range
  show ?thesis by simp
qed

text \<open>
  C5 as stated fails in two ways.  Where a day code is repeated, the entries are not on
  different weekdays: \<open>MWM\<close> has three valid day codes and gives three entries, the
  first and the third on the same Monday.  And an event whose \<open>end\<close> time lies before
  its \<open>start\<close> time gives no entry at all, though its fields are there and parse and
  its two day codes are valid.
\<close>

theorem fan_out_counterexample:
  "read_event (cs101 ''MWM'') = Inr (cs101_parsed, [PStr ''M'', PStr ''W'', PStr ''M'']) \<and>
   List.map_filter item_weekday [PStr ''M'', PStr ''W'', PStr ''M''] = [0, 2, 0] \<and>
   map ev_begin (cal_events (generate_ics [cs101 ''MWM''])) =
     [combine \<lparr>year = 2024, month = 1, day = 8\<rparr> \<lparr>hour = 9, minute = 0, second = 0\<rparr>,
      combine \<lparr>year = 2024, month = 1, day = 10\<rparr> \<lparr>hour = 9, minute = 0, second = 0\<rparr>,
      combine \<lparr>year = 2024, month = 1, day = 8\<rparr> \<lparr>hour = 9, minute = 0, second = 0\<rparr>] \<and>
   \<not> distinct (map (\<lambda>e. weekday (dt_date (ev_begin e))) (cal_events (generate_ics [cs101 ''MWM'']))) \<and>
   List.map_filter item_weekday [PStr ''M'', PStr ''M''] = [0, 0] \<and>
   cal_events (generate_ics [early_end]) = []"
proof -
  have r: "read_event (cs101 ''MWM'') = Inr (cs101_parsed, [PStr ''M'', PStr ''W'', PStr ''M''])"
    by (simp add: read_event_cs101)
  have w: "List.map_filter item_weekday [PStr ''M'', PStr ''W'', PStr ''M''] = [0, 2, 0]"
          "List.map_filter item_weekday [PStr ''M'', PStr ''M''] = [0, 0]"
    by (simp_all add: List.map_filter_simps day_codes_MWF)
  have c: "cal_events (generate_ics [cs101 ''MWM'']) =
     [event_fields cs101_parsed \<lparr>year = 2024, month = 1, day = 8\<rparr>,
      event_fields cs101_parsed \<lparr>year = 2024, month = 1, day = 10\<rparr>,
      event_fields cs101_parsed \<lparr>year = 2024, month = 1, day = 8\<rparr>]"
    by (simp add: generate_ics_single[OF read_event_cs101] new_event_cs101 day_codes_MWF
          first_event_date_cs101_M first_event_date_cs101_W cal_events_empty_state)
  show ?thesis
    unfolding c using r w cal_events_early_end
    by (simp add: event_fields_def cs101_parsed_def combine_def)
qed




section \<open>Unknown day codes\<close>

lemma read_event_days_override:
  assumes "map_of kvs ''days'' = Some (PStr ds)"
  shows "read_event (PDict ((''days'', PStr ds') # kvs)) =
           (case read_event (PDict kvs) of
              Inl e \<Rightarrow> Inl e
            | Inr (p, items) \<Rightarrow> Inr (p, map (\<lambda>c. PStr [c]) ds'))"
  using assms
  by (auto simp: read_event_def bind_def strptime_def split: option.splits pyval.splits sum.splits)

lemma read_event_days_items:
  assumes "map_of kvs ''days'' = Some (PStr ds)" and "read_event (PDict kvs) = Inr (p, items)"
  shows "items = map (\<lambda>c. PStr [c]) ds"
  using read_event_fields[OF assms(2)] assms(1) by auto


lemma event_entries_days_filter:
  assumes "map_of kvs ''days'' = Some (PStr ds)"
  shows "event_entries (PDict ((''days'', PStr (filter (\<lambda>c. DAY_MAP (upper [c]) \<noteq> None) ds)) # kvs)) =
         event_entries (PDict kvs)"
proof (cases "read_event (PDict kvs)")
  case (Inl e)
  then show ?thesis
    by (simp add: event_entries_malformed read_event_days_override[OF assms])
next
  case (Inr r)
  obtain p items where r: "read_event (PDict kvs) = Inr (p, items)" using Inr by (cases r) simp
  have items: "items = map (\<lambda>c. PStr [c]) ds"
    by (rule read_event_days_items[OF assms r])
  let ?ds' = "filter (\<lambda>c. DAY_MAP (upper [c]) \<noteq> None) ds"
  have r': "read_event (PDict ((''days'', PStr ?ds') # kvs)) = Inr (p, map (\<lambda>c. PStr [c]) ?ds')"
    by (simp add: read_event_days_override[OF assms] r)
  have f: "map (\<lambda>c. PStr [c]) ?ds' = filter (\<lambda>item. item_weekday item \<noteq> None) items"
    unfolding items by (induction ds) simp_all
  have s: "list_all is_str items"
    unfolding items by (induction ds) simp_all
  show ?thesis
    unfolding event_entries_def process_event_days_loop[OF r] process_event_days_loop[OF r'] f
    by (rule days_loop_filter[OF s])
qed

text \<open>
  C6.  A day code is looked up without regard to case in the table M, T, W, R, F (Monday
  to Friday, numbered from 0), and every other character has no entry.  A character
  without an entry is skipped: the calendar is the one the same batch yields when
  those characters are taken out of the event's \<open>days\<close>, so the other codes of the
  event, and the other events, give what they give without it.
\<close>

theorem unknown_day_code_skipped:
  assumes "map_of kvs ''days'' = Some (PStr ds)"
  shows "cal_events (generate_ics (before @ PDict kvs # after)) =
         cal_events (generate_ics
           (before @ PDict ((''days'', PStr (filter (\<lambda>c. DAY_MAP (upper [c]) \<noteq> None) ds)) # kvs) # after)) \<and>
         (\<forall>c. DAY_MAP (upper [c]) =
           (if c = CHR ''M'' \<or> c = CHR ''m'' then Some 0
            else if c = CHR ''T'' \<or> c = CHR ''t'' then Some 1
            else if c = CHR ''W'' \<or> c = CHR ''w'' then Some 2
            else if c = CHR ''R'' \<or> c = CHR ''r'' then Some 3
            else if c = CHR ''F'' \<or> c = CHR ''f'' then Some 4
            else None))"
  using event_entries_days_filter[OF assms] day_code_table
  by (simp add: generate_ics_entries)

text \<open>
  The event of the scenario with \<open>days = "MXw"\<close>: the entries of Monday and Wednesday,
  as for \<open>"Mw"\<close>; \<open>X\<close> has no entry in the table.
\<close>

theorem unknown_day_code_skipped_witness:
  "map_of [(''title'', PStr ''CS101''), (''start'', PStr ''2024-01-08T09:00:00''),
           (''end'', PStr ''2024-01-08T09:50:00''), (''days'', PStr ''MXw''),
           (''location'', PStr ''Rm 5''), (''end_date'', PStr ''2024-03-22''),
           (''notes'', PStr ''Prof X'')] ''days'' = Some (PStr ''MXw'') \<and>
   filter (\<lambda>c. DAY_MAP (upper [c]) \<noteq> None) ''MXw'' = ''Mw'' \<and>
   DAY_MAP (upper ''X'') = None \<and>
   cal_events (generate_ics [cs101 ''MXw'']) =
     [event_fields cs101_parsed \<lparr>year = 2024, month = 1, day = 8\<rparr>,
      event_fields cs101_parsed \<lparr>year = 2024, month = 1, day = 10\<rparr>]"
proof -
  let ?kvs = "[(''title'', PStr ''CS101''), (''start'', PStr ''2024-01-08T09:00:00''),
           (''end'', PStr ''2024-01-08T09:50:00''), (''days'', PStr ''MXw''),
           (''location'', PStr ''Rm 5''), (''end_date'', PStr ''2024-03-22''),
           (''notes'', PStr ''Prof X'')]"
  have m: "map_of ?kvs ''days'' = Some (PStr ''MXw'')" by simp
  have k: "PDict ?kvs = cs101 ''MXw''" by (simp add: cs101_def)
  have f: "filter (\<lambda>c. DAY_MAP (upper [c]) \<noteq> None) ''MXw'' = ''Mw''"
    by (simp add: day_code_table)
  have r: "read_event (PDict ((''days'', PStr ''Mw'') # ?kvs)) = Inr (cs101_parsed, [PStr ''M'', PStr ''w''])"
    by (simp add: read_event_days_override[OF m] k read_event_cs101)
  have w: "DAY_MAP (upper ''w'') = Some 2" by (simp add: day_code_table)
  have c: "cal_events (generate_ics [PDict ((''days'', PStr ''Mw'') # ?kvs)]) =
     [event_fields cs101_parsed \<lparr>year = 2024, month = 1, day = 8\<rparr>,
      event_fields cs101_parsed \<lparr>year = 2024, month = 1, day = 10\<rparr>]"
    by (simp add: generate_ics_single[OF r] new_event_cs101 day_codes_MWF w first_event_date_cs101_M
          first_event_date_cs101_W cal_events_empty_state)
  from unknown_day_code_skipped[OF m, of "[]" "[]"] have
    "cal_events (generate_ics [cs101 ''MXw'']) =
     cal_events (generate_ics [PDict ((''days'', PStr ''Mw'') # ?kvs)])"
    unfolding f k by simp
  with c m f day_codes_MWF(4) show ?thesis by simp
qed

section \<open>The sanitizer twice\<close>

lemma set_strip: "set (strip s) \<subseteq> set s"
proof -
  have "set (dropWhile isspace (rev (dropWhile isspace s))) \<subseteq> set (rev (dropWhile isspace s))"
    by (meson set_dropWhileD subsetI)
  also have "\<dots> \<subseteq> set s"
    using set_dropWhileD by fastforce
  finally show ?thesis by (simp add: strip_def)
qed

lemma length_strip: "length (strip s) \<le> length s"
proof -
  have "length (strip s) \<le> length (dropWhile isspace s)"
    unfolding strip_def using length_dropWhile_le[of isspace "rev (dropWhile isspace s)"] by simp
  also have "\<dots> \<le> length s" by (rule length_dropWhile_le)
  finally show ?thesis .
qed

lemma clean_response_no_backtick: "CHR 0x60 \<notin> set (clean_response x)"
  by (simp add: clean_response_def replace_backticks_def Let_def)

lemma replace_backticks_id: "CHR 0x60 \<notin> set s \<Longrightarrow> replace_backticks s = s"
  by (auto simp: replace_backticks_def filter_id_conv)

lemma not_fence: "CHR 0x60 \<notin> set s \<Longrightarrow> \<not> startswith s fence"
proof
  assume a: "CHR 0x60 \<notin> set s" and "startswith s fence"
  then have t: "take (length fence) s = fence" by (simp only: startswith_def)
  have "CHR 0x60 \<in> set fence" by (simp add: fence_def)
  then have "CHR 0x60 \<in> set (take (length fence) s)" by (simp only: t)
  then have "CHR 0x60 \<in> set s" by (rule in_set_takeD)
  with a show False by simp
qed

lemma strip_json_tag_shorter:
  "startswith (lower s) ''json'' \<Longrightarrow> length (strip_json_tag s) < length s"
proof -
  assume a: "startswith (lower s) ''json''"
  let ?n = "length ''json''"
  have n: "0 < ?n" by simp
  from a have "length (take ?n (lower s)) = ?n" by (simp only: startswith_def)
  then have l: "?n \<le> length s" by (simp add: lower_def)
  have 1: "length (strip (drop ?n s)) \<le> length s - ?n"
    using length_strip[of "drop ?n s"] by (simp only: length_drop)
  have 2: "length (strip (drop 1 (strip (drop ?n s)))) \<le> length s - ?n"
  proof -
    have "length (strip (drop 1 (strip (drop ?n s)))) \<le> length (drop 1 (strip (drop ?n s)))"
      by (rule length_strip)
    also have "\<dots> \<le> length (strip (drop ?n s))" by simp
    also note 1
    finally show ?thesis .
  qed
  have 3: "length s - ?n < length s" using l n by arith
  have "length (strip_json_tag s) \<le> length s - ?n"
    unfolding strip_json_tag_def Let_def using a 1 2 by (simp only: if_True split: if_splits) simp
  with 3 show ?thesis by arith
qed

lemma clean_response_plain:
  assumes "CHR 0x60 \<notin> set z"
  shows "clean_response z = strip_json_tag (strip z)"
proof -
  have b: "CHR 0x60 \<notin> set (strip z)" using assms set_strip by blast
  have c: "CHR 0x60 \<notin> set (strip_json_tag (strip z))"
  proof -
    have "set (strip_json_tag (strip z)) \<subseteq> set (strip z)"
      unfolding strip_json_tag_def Let_def
      using set_strip[of "drop (length ''json'') (strip z)"]
            set_strip[of "drop 1 (strip (drop (length ''json'') (strip z)))"]
            set_drop_subset[of "length ''json''" "strip z"]
            set_drop_subset[of 1 "strip (drop (length ''json'') (strip z))"]
      by (simp only: split: if_splits) blast
    with b show ?thesis by blast
  qed
  show ?thesis
    by (simp add: clean_response_def Let_def not_fence[OF b] replace_backticks_id[OF c])
qed

lemma clean_response_fixpoint:
  assumes "CHR 0x60 \<notin> set z"
  shows "clean_response z = z \<longleftrightarrow> strip z = z \<and> \<not> startswith (lower z) ''json''"
proof
  assume f: "clean_response z = z"
  then have e: "strip_json_tag (strip z) = z" by (simp add: clean_response_plain[OF assms])
  show "strip z = z \<and> \<not> startswith (lower z) ''json''"
  proof (cases "startswith (lower (strip z)) ''json''")
    case True
    from strip_json_tag_shorter[OF True] length_strip[of z] e show ?thesis by simp
  next
    case False
    then have "strip_json_tag (strip z) = strip z" by (simp add: strip_json_tag_def)
    with e have "strip z = z" by simp
    with False show ?thesis by simp
  qed
next
  assume "strip z = z \<and> \<not> startswith (lower z) ''json''"
  then show "clean_response z = z"
    by (simp add: clean_response_plain[OF assms] strip_json_tag_def)
qed

text \<open>
  C3, as the code has it.  The sanitized text never holds a backtick, and a second pass
  leaves it as it is exactly when it has no white space at either end and does not
  begin with \<open>json\<close> in any mix of cases.
\<close>

theorem clean_response_twice:
  "CHR 0x60 \<notin> set (clean_response x) \<and>
   (clean_response (clean_response x) = clean_response x \<longleftrightarrow>
      strip (clean_response x) = clean_response x \<and>
      \<not> startswith (lower (clean_response x)) ''json'')"
  using clean_response_fixpoint[OF clean_response_no_backtick[of x]] clean_response_no_backtick[of x]
  by simp

text \<open>
  C3 as stated fails: the first pass takes one \<open>json\<close> from \<open>json json\<close>, the second
  takes the other.
\<close>

theorem clean_response_idempotent_counterexample:
  "clean_response ''json json'' = ''json'' \<and> clean_response (clean_response ''json json'') = ''''"
  by (simp add: clean_response_def strip_def strip_json_tag_def startswith_def endswith_def
        lower_def lower_char_def isspace_def replace_backticks_def fence_def)


text \<open>
  A text the second pass leaves alone, and one it changes.
\<close>

theorem clean_response_twice_witness:
  "clean_response '' json: {} '' = ''{}'' \<and>
   strip ''{}'' = ''{}'' \<and> \<not> startswith (lower ''{}'') ''json'' \<and>
   clean_response (clean_response '' json: {} '') = clean_response '' json: {} '' \<and>
   startswith (lower (clean_response ''json json'')) ''json'' \<and>
   clean_response (clean_response ''json json'') \<noteq> clean_response ''json json''"
proof -
  have a: "clean_response '' json: {} '' = ''{}''"
    by (simp add: clean_response_def strip_def strip_json_tag_def startswith_def endswith_def
          lower_def lower_char_def isspace_def replace_backticks_def fence_def)
  have b: "strip ''{}'' = ''{}''" "\<not> startswith (lower ''{}'') ''json''"
    by (simp_all add: strip_def isspace_def startswith_def lower_def lower_char_def)
  have c: "clean_response ''json json'' = ''json''"
    by (simp add: clean_response_def strip_def strip_json_tag_def startswith_def endswith_def
          lower_def lower_char_def isspace_def replace_backticks_def fence_def)
  have d: "startswith (lower ''json'') ''json''"
    by (simp add: startswith_def lower_def lower_char_def)
  from clean_response_twice[of "'' json: {} ''"] clean_response_twice[of "''json json''"] a b c d
  show ?thesis by simp
qed

section \<open>The outcomes of the decoder\<close>

text \<open>
  C2, as the code has it.  \<open>parse_schedule\<close> fails exactly when the parser rejects the
  sanitized text, or the parsed value is not an object, or the object has an \<open>events\<close>
  member that is not a list.  An object without \<open>events\<close> gives the empty list, and an
  object whose \<open>events\<close> is a list gives that list, whole.
\<close>

theorem parse_schedule_outcome:
  "((\<exists>e. parse_schedule decode s = Inl e) \<longleftrightarrow>
      decode (clean_response s) = None \<or>
      (\<exists>v. decode (clean_response s) = Some v \<and> \<not> is_dict v) \<or>
      (\<exists>kvs v. decode (clean_response s) = Some (PDict kvs) \<and>
               map_of kvs ''events'' = Some v \<and> \<not> is_list v)) \<and>
   (\<forall>kvs. decode (clean_response s) = Some (PDict kvs) \<longrightarrow> map_of kvs ''events'' = None \<longrightarrow>
      parse_schedule decode s = Inr []) \<and>
   (\<forall>kvs events. decode (clean_response s) = Some (PDict kvs) \<longrightarrow>
      map_of kvs ''events'' = Some (PList events) \<longrightarrow>
      parse_schedule decode s = Inr events)"
proof (cases "decode (clean_response s)")
  case None
  then show ?thesis by (simp add: parse_schedule_def)
next
  case (Some v)
  show ?thesis
  proof (cases v)
    case (PDict kvs)
    show ?thesis
    proof (cases "map_of kvs ''events''")
      case None
      with Some PDict show ?thesis by (simp add: parse_schedule_def)
    next
      case ev: (Some x)
      with Some PDict show ?thesis by (cases x) (simp_all add: parse_schedule_def)
    qed
  qed (use Some in \<open>simp_all add: parse_schedule_def\<close>)
qed

lemma clean_response_examples:
  "clean_response ''{events:[1]}'' = ''{events:[1]}''"
  "clean_response ''{}'' = ''{}''"
  "clean_response ''{events:3}'' = ''{events:3}''"
  "clean_response ''[1]'' = ''[1]''"
  "clean_response ''hello'' = ''hello''"
  by (simp_all add: clean_response_def strip_def strip_json_tag_def startswith_def endswith_def
        lower_def lower_char_def isspace_def replace_backticks_def fence_def)

text \<open>
  The five outcomes on a decoder that knows four texts.
\<close>

theorem parse_schedule_outcome_witness:
  "decode_table (clean_response ''{events:[1]}'') = Some (PDict [(''events'', PList [PNum 1])]) \<and>
   map_of [(''events'', PList [PNum 1])] ''events'' = Some (PList [PNum 1]) \<and>
   parse_schedule decode_table ''{events:[1]}'' = Inr [PNum 1] \<and>
   decode_table (clean_response ''{}'') = Some (PDict []) \<and>
   map_of [] ''events'' = (None :: pyval option) \<and>
   parse_schedule decode_table ''{}'' = Inr [] \<and>
   parse_schedule decode_table ''{events:3}'' = Inl (Failed_to_parse ValueError) \<and>
   parse_schedule decode_table ''[1]'' = Inl (Failed_to_parse AttributeError) \<and>
   decode_table (clean_response ''hello'') = None \<and>
   parse_schedule decode_table ''hello'' = Inl (Failed_to_parse JSONDecodeError)"
proof -
  have d: "decode_table (clean_response ''{events:[1]}'') = Some (PDict [(''events'', PList [PNum 1])])"
          "decode_table (clean_response ''{}'') = Some (PDict [])"
          "decode_table (clean_response ''hello'') = None"
    by (simp_all add: clean_response_examples decode_table_def)
  have m: "map_of [(''events'', PList [PNum 1])] ''events'' = Some (PList [PNum 1])"
          "map_of [] ''events'' = (None :: pyval option)"
    by simp_all
  have f: "parse_schedule decode_table ''{events:3}'' = Inl (Failed_to_parse ValueError)"
          "parse_schedule decode_table ''[1]'' = Inl (Failed_to_parse AttributeError)"
          "parse_schedule decode_table ''hello'' = Inl (Failed_to_parse JSONDecodeError)"
    by (simp_all add: parse_schedule_def clean_response_examples decode_table_def)
  from parse_schedule_outcome[of decode_table "''{events:[1]}''"] d(1) m(1)
  have 1: "parse_schedule decode_table ''{events:[1]}'' = Inr [PNum 1]" by blast
  from parse_schedule_outcome[of decode_table "''{}''"] d(2) m(2)
  have 2: "parse_schedule decode_table ''{}'' = Inr []" by blast
  from 1 2 d m f show ?thesis by simp
qed

text \<open>
  C2 as stated fails: for an object without \<open>events\<close> the claim asks for an error, and
  \<open>parse_schedule\<close> returns the empty list.
\<close>

theorem parse_schedule_counterexample:
  "decode_table (clean_response ''{}'') = Some (PDict []) \<and>
   map_of [] ''events'' = (None :: pyval option) \<and>
   parse_schedule decode_table ''{}'' = Inr []"
  by (simp add: parse_schedule_def clean_response_examples decode_table_def)

end
